theory Spec2Isabelle
  imports Main
begin

section \<open>The syntax tree of go/ast, as far as the query engine inspects it\<close>

text \<open>
  The package works on \<^verbatim>\<open>ast.Node\<close> values of the Go standard library. The node
  structs modelled here are the ones the filters look at (\<^verbatim>\<open>FuncDecl\<close>,
  \<^verbatim>\<open>TypeSpec\<close>, \<^verbatim>\<open>SelectorExpr\<close>, \<^verbatim>\<open>Ident\<close>, \<^verbatim>\<open>StarExpr\<close>,
  \<^verbatim>\<open>ImportSpec\<close>) and the ones needed to build a file around them. A field of
  type \<^verbatim>\<open>*ast.Ident\<close> is kept as the identifier's \<^verbatim>\<open>Name\<close>; a field that go/ast
  documents as "or nil" is an \<open>option\<close>; every other pointer field is taken to be non-nil.
  Positions, comments and documentation groups are left out.
\<close>

datatype expr =
    Ident string                     \<comment> \<open>\<^verbatim>\<open>*ast.Ident{Name}\<close>\<close>
  | BasicLit string                  \<comment> \<open>\<^verbatim>\<open>*ast.BasicLit{Value}\<close>\<close>
  | ParenExpr expr                   \<comment> \<open>\<^verbatim>\<open>*ast.ParenExpr{X}\<close>\<close>
  | StarExpr expr                    \<comment> \<open>\<^verbatim>\<open>*ast.StarExpr{X}\<close>\<close>
  | SelectorExpr expr string         \<comment> \<open>\<^verbatim>\<open>*ast.SelectorExpr{X, Sel}\<close>\<close>
  | IndexExpr expr expr              \<comment> \<open>\<^verbatim>\<open>*ast.IndexExpr{X, Index}\<close>\<close>
  | CallExpr expr "expr list"        \<comment> \<open>\<^verbatim>\<open>*ast.CallExpr{Fun, Args}\<close>\<close>
  | ArrayType "expr option" expr     \<comment> \<open>\<^verbatim>\<open>*ast.ArrayType{Len, Elt}\<close>, \<^verbatim>\<open>Len\<close> nil for a slice\<close>

datatype field = Field "string list" expr   \<comment> \<open>\<^verbatim>\<open>*ast.Field{Names, Type}\<close>\<close>

datatype funcType = FuncType "field list" "field list option"
  \<comment> \<open>\<^verbatim>\<open>*ast.FuncType{Params, Results}\<close>, both \<^verbatim>\<open>*ast.FieldList\<close>\<close>

datatype stmt =
    ExprStmt expr                    \<comment> \<open>\<^verbatim>\<open>*ast.ExprStmt{X}\<close>\<close>
  | ReturnStmt "expr list"           \<comment> \<open>\<^verbatim>\<open>*ast.ReturnStmt{Results}\<close>\<close>
  | BlockStmt "stmt list"            \<comment> \<open>\<^verbatim>\<open>*ast.BlockStmt{List}\<close>\<close>

datatype spec =
    ImportSpec "string option" string   \<comment> \<open>\<^verbatim>\<open>*ast.ImportSpec{Name, Path}\<close>, \<^verbatim>\<open>Name\<close> nil without alias\<close>
  | TypeSpec string expr                \<comment> \<open>\<^verbatim>\<open>*ast.TypeSpec{Name, Type}\<close>\<close>

datatype decl =
    GenDecl "spec list"              \<comment> \<open>\<^verbatim>\<open>*ast.GenDecl{Specs}\<close>\<close>
  | FuncDecl "field list option" string funcType "stmt list option"
      \<comment> \<open>\<^verbatim>\<open>*ast.FuncDecl{Recv, Name, Type, Body}\<close>; \<^verbatim>\<open>Recv\<close> and \<^verbatim>\<open>Body\<close> may be nil\<close>

datatype gofile = File string "decl list"   \<comment> \<open>\<^verbatim>\<open>*ast.File{Name, Decls}\<close>\<close>

text \<open>The interface \<^verbatim>\<open>ast.Node\<close>: one injection per family of node structs. The nil
  interface value is \<open>None\<close> of type \<open>node option\<close>.\<close>

datatype node =
    NExpr expr
  | NField field
  | NFieldList "field list"          \<comment> \<open>\<^verbatim>\<open>*ast.FieldList{List}\<close>\<close>
  | NFuncType funcType
  | NStmt stmt
  | NSpec spec
  | NDecl decl
  | NFile gofile

text \<open>\<^verbatim>\<open>reflect.TypeOf(node)\<close>: the dynamic type of a node. \<open>TOther\<close> stands for any
  Go type that is none of the node types above (a filter may be configured with it).\<close>

datatype rtype =
    TIdent | TBasicLit | TParenExpr | TStarExpr | TSelectorExpr | TIndexExpr | TCallExpr
  | TArrayType | TField | TFieldList | TFuncType | TExprStmt | TReturnStmt | TBlockStmt
  | TImportSpec | TTypeSpec | TGenDecl | TFuncDecl | TFile | TOther string

fun exprType :: "expr \<Rightarrow> rtype" where
  "exprType (Ident _) = TIdent"
| "exprType (BasicLit _) = TBasicLit"
| "exprType (ParenExpr _) = TParenExpr"
| "exprType (StarExpr _) = TStarExpr"
| "exprType (SelectorExpr _ _) = TSelectorExpr"
| "exprType (IndexExpr _ _) = TIndexExpr"
| "exprType (CallExpr _ _) = TCallExpr"
| "exprType (ArrayType _ _) = TArrayType"

fun nodeType :: "node \<Rightarrow> rtype" where
  "nodeType (NExpr e) = exprType e"
| "nodeType (NField _) = TField"
| "nodeType (NFieldList _) = TFieldList"
| "nodeType (NFuncType _) = TFuncType"
| "nodeType (NStmt (ExprStmt _)) = TExprStmt"
| "nodeType (NStmt (ReturnStmt _)) = TReturnStmt"
| "nodeType (NStmt (BlockStmt _)) = TBlockStmt"
| "nodeType (NSpec (ImportSpec _ _)) = TImportSpec"
| "nodeType (NSpec (TypeSpec _ _)) = TTypeSpec"
| "nodeType (NDecl (GenDecl _)) = TGenDecl"
| "nodeType (NDecl (FuncDecl _ _ _ _)) = TFuncDecl"
| "nodeType (NFile _) = TFile"

text \<open>\<^verbatim>\<open>reflect.TypeOf\<close> of an interface value; nil for the nil interface.\<close>

fun TypeOf :: "node option \<Rightarrow> rtype option" where
  "TypeOf None = None"
| "TypeOf (Some n) = Some (nodeType n)"

subsection \<open>The children of a node, in the order \<^verbatim>\<open>ast.Walk\<close> visits them\<close>

fun children :: "node \<Rightarrow> node list" where
  "children (NExpr (Ident _)) = []"
| "children (NExpr (BasicLit _)) = []"
| "children (NExpr (ParenExpr x)) = [NExpr x]"
| "children (NExpr (StarExpr x)) = [NExpr x]"
| "children (NExpr (SelectorExpr x sel)) = [NExpr x, NExpr (Ident sel)]"
| "children (NExpr (IndexExpr x i)) = [NExpr x, NExpr i]"
| "children (NExpr (CallExpr f args)) = NExpr f # map NExpr args"
| "children (NExpr (ArrayType len elt)) =
     (case len of None \<Rightarrow> [] | Some l \<Rightarrow> [NExpr l]) @ [NExpr elt]"
| "children (NField (Field names ty)) = map (\<lambda>a. NExpr (Ident a)) names @ [NExpr ty]"
| "children (NFieldList fs) = map NField fs"
| "children (NFuncType (FuncType params results)) =
     NFieldList params # (case results of None \<Rightarrow> [] | Some rs \<Rightarrow> [NFieldList rs])"
| "children (NStmt (ExprStmt x)) = [NExpr x]"
| "children (NStmt (ReturnStmt rs)) = map NExpr rs"
| "children (NStmt (BlockStmt ss)) = map NStmt ss"
| "children (NSpec (ImportSpec name path)) =
     (case name of None \<Rightarrow> [] | Some a \<Rightarrow> [NExpr (Ident a)]) @ [NExpr (BasicLit path)]"
| "children (NSpec (TypeSpec name ty)) = [NExpr (Ident name), NExpr ty]"
| "children (NDecl (GenDecl specs)) = map NSpec specs"
| "children (NDecl (FuncDecl recv name ty body)) =
     (case recv of None \<Rightarrow> [] | Some fl \<Rightarrow> [NFieldList fl])
     @ [NExpr (Ident name), NFuncType ty]
     @ (case body of None \<Rightarrow> [] | Some b \<Rightarrow> [NStmt (BlockStmt b)])"
| "children (NFile (File name decls)) = NExpr (Ident name) # map NDecl decls"

text \<open>The number of nodes of a subtree; it bounds the recursion of the walk.\<close>

primrec esize :: "expr \<Rightarrow> nat" where
  "esize (Ident _) = 1"
| "esize (BasicLit _) = 1"
| "esize (ParenExpr x) = Suc (esize x)"
| "esize (StarExpr x) = Suc (esize x)"
| "esize (SelectorExpr x _) = Suc (Suc (esize x))"
| "esize (IndexExpr x i) = Suc (esize x + esize i)"
| "esize (CallExpr f args) = Suc (esize f + sum_list (map esize args))"
| "esize (ArrayType len elt) =
     Suc ((case map_option esize len of None \<Rightarrow> 0 | Some k \<Rightarrow> k) + esize elt)"

fun fsize :: "field \<Rightarrow> nat" where
  "fsize (Field names ty) = Suc (length names + esize ty)"

definition flsize :: "field list \<Rightarrow> nat" where
  "flsize fs = Suc (sum_list (map fsize fs))"

fun ftsize :: "funcType \<Rightarrow> nat" where
  "ftsize (FuncType params results) =
     Suc (flsize params + (case results of None \<Rightarrow> 0 | Some rs \<Rightarrow> flsize rs))"

primrec ssize :: "stmt \<Rightarrow> nat" where
  "ssize (ExprStmt x) = Suc (esize x)"
| "ssize (ReturnStmt rs) = Suc (sum_list (map esize rs))"
| "ssize (BlockStmt ss) = Suc (sum_list (map ssize ss))"

fun spsize :: "spec \<Rightarrow> nat" where
  "spsize (ImportSpec name _) = (case name of None \<Rightarrow> 2 | Some _ \<Rightarrow> 3)"
| "spsize (TypeSpec _ ty) = Suc (Suc (esize ty))"

fun dsize :: "decl \<Rightarrow> nat" where
  "dsize (GenDecl specs) = Suc (sum_list (map spsize specs))"
| "dsize (FuncDecl recv _ ty body) =
     Suc (Suc ((case recv of None \<Rightarrow> 0 | Some fl \<Rightarrow> flsize fl) + ftsize ty
       + (case body of None \<Rightarrow> 0 | Some b \<Rightarrow> Suc (sum_list (map ssize b)))))"

fun nsize :: "node \<Rightarrow> nat" where
  "nsize (NExpr e) = esize e"
| "nsize (NField f) = fsize f"
| "nsize (NFieldList fs) = flsize fs"
| "nsize (NFuncType t) = ftsize t"
| "nsize (NStmt s) = ssize s"
| "nsize (NSpec s) = spsize s"
| "nsize (NDecl d) = dsize d"
| "nsize (NFile (File _ decls)) = Suc (Suc (sum_list (map dsize decls)))"

subsection \<open>The type resolver\<close>

datatype error =
    NilPointerDereference            \<comment> \<open>the run-time panic of Go\<close>
  | NotATypeExpression               \<comment> \<open>the error value built by \<^verbatim>\<open>fmt.Errorf\<close> in \<^verbatim>\<open>typeName\<close>\<close>

text \<open>\<^verbatim>\<open>typeName\<close> returns a pair \<^verbatim>\<open>(string, error)\<close>; the \<^verbatim>\<open>nil\<close> error is \<open>None\<close>.\<close>

fun typeName :: "expr \<Rightarrow> string \<times> error option" where
  "typeName (StarExpr x) = typeName x"
| "typeName (Ident name) = (name, None)"
| "typeName _ = ('''', Some NotATypeExpression)"

subsection \<open>Reflection on struct fields\<close>

text \<open>What \<^verbatim>\<open>reflect.Value.Interface()\<close> of a struct field holds: a \<^verbatim>\<open>*ast.Ident\<close>
  (the nil pointer or a pointer to an identifier with the given \<^verbatim>\<open>Name\<close>), a string, or
  a value of another type.\<close>

datatype fieldval =
    IdentPtr "string option"
  | StringVal string
  | OtherVal

text \<open>The fields of the go/ast structs, by name.\<close>

fun exprFields :: "expr \<Rightarrow> (string \<times> fieldval) list" where
  "exprFields (Ident name) =
     [(''NamePos'', OtherVal), (''Name'', StringVal name), (''Obj'', OtherVal)]"
| "exprFields (BasicLit v) =
     [(''ValuePos'', OtherVal), (''Kind'', OtherVal), (''Value'', StringVal v)]"
| "exprFields (ParenExpr _) = [(''Lparen'', OtherVal), (''X'', OtherVal), (''Rparen'', OtherVal)]"
| "exprFields (StarExpr _) = [(''Star'', OtherVal), (''X'', OtherVal)]"
| "exprFields (SelectorExpr _ sel) = [(''X'', OtherVal), (''Sel'', IdentPtr (Some sel))]"
| "exprFields (IndexExpr _ _) =
     [(''X'', OtherVal), (''Lbrack'', OtherVal), (''Index'', OtherVal), (''Rbrack'', OtherVal)]"
| "exprFields (CallExpr _ _) =
     [(''Fun'', OtherVal), (''Lparen'', OtherVal), (''Args'', OtherVal),
      (''Ellipsis'', OtherVal), (''Rparen'', OtherVal)]"
| "exprFields (ArrayType _ _) = [(''Lbrack'', OtherVal), (''Len'', OtherVal), (''Elt'', OtherVal)]"

fun structFields :: "node \<Rightarrow> (string \<times> fieldval) list" where
  "structFields (NExpr e) = exprFields e"
| "structFields (NField _) =
     [(''Doc'', OtherVal), (''Names'', OtherVal), (''Type'', OtherVal), (''Tag'', OtherVal),
      (''Comment'', OtherVal)]"
| "structFields (NFieldList _) =
     [(''Opening'', OtherVal), (''List'', OtherVal), (''Closing'', OtherVal)]"
| "structFields (NFuncType _) =
     [(''Func'', OtherVal), (''Params'', OtherVal), (''Results'', OtherVal)]"
| "structFields (NStmt (ExprStmt _)) = [(''X'', OtherVal)]"
| "structFields (NStmt (ReturnStmt _)) = [(''Return'', OtherVal), (''Results'', OtherVal)]"
| "structFields (NStmt (BlockStmt _)) =
     [(''Lbrace'', OtherVal), (''List'', OtherVal), (''Rbrace'', OtherVal)]"
| "structFields (NSpec (ImportSpec name _)) =
     [(''Doc'', OtherVal), (''Name'', IdentPtr name), (''Path'', OtherVal),
      (''Comment'', OtherVal), (''EndPos'', OtherVal)]"
| "structFields (NSpec (TypeSpec name _)) =
     [(''Doc'', OtherVal), (''Name'', IdentPtr (Some name)), (''Type'', OtherVal),
      (''Comment'', OtherVal)]"
| "structFields (NDecl (GenDecl _)) =
     [(''Doc'', OtherVal), (''TokPos'', OtherVal), (''Tok'', OtherVal), (''Lparen'', OtherVal),
      (''Specs'', OtherVal), (''Rparen'', OtherVal)]"
| "structFields (NDecl (FuncDecl _ name _ _)) =
     [(''Doc'', OtherVal), (''Recv'', OtherVal), (''Name'', IdentPtr (Some name)),
      (''Type'', OtherVal), (''Body'', OtherVal)]"
| "structFields (NFile (File name _)) =
     [(''Doc'', OtherVal), (''Package'', OtherVal), (''Name'', IdentPtr (Some name)),
      (''Decls'', OtherVal), (''Scope'', OtherVal), (''Imports'', OtherVal),
      (''Unresolved'', OtherVal), (''Comments'', OtherVal)]"

text \<open>\<^verbatim>\<open>getStructField\<close> (the same in both versions of the package): the pair
  \<^verbatim>\<open>(fieldVal, exists)\<close>, with \<open>None\<close> for the nil interface.\<close>

definition getStructField :: "node option \<Rightarrow> string \<Rightarrow> fieldval option \<times> bool" where
  "getStructField v fld =
     (case v of
        None \<Rightarrow> (None, False)
      | Some vv \<Rightarrow>
          (case map_of (structFields vv) fld of
             None \<Rightarrow> (None, False)
           | Some fv \<Rightarrow> (Some fv, True)))"

subsection \<open>Identifier extraction\<close>

text \<open>\<^verbatim>\<open>GetName\<close> of the later version. The type assertion to \<^verbatim>\<open>*ast.Ident\<close> succeeds
  on a nil pointer of that type, and reading \<^verbatim>\<open>.Name\<close> through it panics.\<close>

definition GetName :: "node option \<Rightarrow> error + (string \<times> bool)" where
  "GetName n =
     (let ident =
        (case getStructField n ''Name'' of
           (idt, True) \<Rightarrow> idt
         | (_, False) \<Rightarrow>
             (case getStructField n ''Sel'' of
                (idt, True) \<Rightarrow> idt
              | (_, False) \<Rightarrow> None))
      in case ident of
           None \<Rightarrow> Inr ([], False)
         | Some (IdentPtr nodeName) \<Rightarrow>
             (case nodeName of
                None \<Rightarrow> Inl NilPointerDereference
              | Some name \<Rightarrow> Inr (name, True))
         | Some _ \<Rightarrow> Inr ([], False))"

text \<open>\<^verbatim>\<open>getName\<close> of the earlier version (\<^verbatim>\<open>ast.go\<close>): the \<^verbatim>\<open>Name\<close> field, asserted
  to be a string.\<close>

definition getName :: "node option \<Rightarrow> string \<times> bool" where
  "getName n =
     (case getStructField n ''Name'' of
        (_, False) \<Rightarrow> ([], False)
      | (nameValue, True) \<Rightarrow>
          (case nameValue of
             Some (StringVal nodeName) \<Rightarrow> (nodeName, True)
           | _ \<Rightarrow> ([], False)))"

text \<open>\<^verbatim>\<open>(*ast.Ident).IsExported\<close>: the first character is an upper-case letter
  (identifiers are taken to be ASCII; the Unicode tables are not modelled).\<close>

fun IsExported :: "string \<Rightarrow> bool" where
  "IsExported [] = False"
| "IsExported (ch # _) = (65 \<le> (of_char ch :: nat) \<and> (of_char ch :: nat) \<le> 90)"

subsection \<open>Regular expressions\<close>

text \<open>The operators of \<^verbatim>\<open>regexp/syntax\<close> that the patterns of this package use.
  \<open>accepts r b e w\<close> says that \<open>r\<close> matches exactly the slice \<open>w\<close> of a text, where \<open>b\<close>
  holds when the slice starts at the beginning of the text and \<open>e\<close> when it stops at its
  end.\<close>

datatype regexp =
    EmptyMatch
  | Literal string
  | AnyCharNotNL
  | CharClass "(char \<times> char) list"
  | BeginText
  | EndText
  | Concat regexp regexp
  | Alternate regexp regexp
  | Star regexp

definition inClass :: "(char \<times> char) list \<Rightarrow> char \<Rightarrow> bool" where
  "inClass rs c =
     list_ex (\<lambda>(lo, hi). (of_char lo :: nat) \<le> of_char c \<and> (of_char c :: nat) \<le> of_char hi) rs"

function accepts :: "regexp \<Rightarrow> bool \<Rightarrow> bool \<Rightarrow> string \<Rightarrow> bool" where
  "accepts EmptyMatch b e w = (w = [])"
| "accepts (Literal str) b e w = (w = str)"
| "accepts AnyCharNotNL b e w = (case w of [c] \<Rightarrow> c \<noteq> CHR 0x0A | _ \<Rightarrow> False)"
| "accepts (CharClass rs) b e w = (case w of [c] \<Rightarrow> inClass rs c | _ \<Rightarrow> False)"
| "accepts BeginText b e w = (w = [] \<and> b)"
| "accepts EndText b e w = (w = [] \<and> e)"
| "accepts (Concat r1 r2) b e w =
     list_ex (\<lambda>k. if accepts r1 b (e \<and> k = length w) (take k w)
                   then accepts r2 (b \<and> k = 0) e (drop k w) else False)
       [0..<Suc (length w)]"
| "accepts (Alternate r1 r2) b e w = (if accepts r1 b e w then True else accepts r2 b e w)"
| "accepts (Star r) b e w =
     (if w = [] then True
      else list_ex (\<lambda>k. if accepts r b (e \<and> k = length w) (take k w)
                         then accepts (Star r) False e (drop k w) else False)
             [1..<Suc (length w)])"
  by pat_completeness auto
termination
  by (relation "measures [\<lambda>(r, b, e, w). size r, \<lambda>(r, b, e, w). length w]") auto

text \<open>\<^verbatim>\<open>(*regexp.Regexp).MatchString\<close>: some slice of the text is matched.\<close>

definition MatchString :: "regexp \<Rightarrow> string \<Rightarrow> bool" where
  "MatchString re s =
     list_ex (\<lambda>i. list_ex (\<lambda>j. accepts re (i = 0) (j = length s) (take (j - i) (drop i s)))
                    [i..<Suc (length s)])
       [0..<Suc (length s)]"

subsection \<open>Filters\<close>

text \<open>The implementations of the interface \<^verbatim>\<open>Filter\<close>: the three structs with their
  fields, and \<^verbatim>\<open>FilterFunc\<close> wrapping any predicate on nodes. A \<^verbatim>\<open>reflect.Type\<close> is an
  interface value, \<open>None\<close> when nil.\<close>

datatype nodeFilter =
    SetFilter "string list" "rtype option"       \<comment> \<open>\<^verbatim>\<open>Names\<close>, \<^verbatim>\<open>Type\<close>\<close>
  | RegexpFilter regexp "rtype option"           \<comment> \<open>\<^verbatim>\<open>Pattern\<close>, \<^verbatim>\<open>Type\<close>\<close>
  | MethodFilter string bool                     \<comment> \<open>\<^verbatim>\<open>ReceiverType\<close>, \<^verbatim>\<open>ExportedOnly\<close>\<close>
  | FilterFunc "node option \<Rightarrow> bool"

text \<open>The loop of \<^verbatim>\<open>SetFilter.Filter\<close> over \<^verbatim>\<open>f.Names\<close>.\<close>

fun matched :: "string list \<Rightarrow> string \<Rightarrow> bool" where
  "matched [] nodeName = False"
| "matched (name # names) nodeName = (if name = nodeName then True else matched names nodeName)"

fun fieldType :: "field \<Rightarrow> expr" where
  "fieldType (Field _ ty) = ty"

fun Filter :: "nodeFilter \<Rightarrow> node option \<Rightarrow> error + bool" where
  "Filter (SetFilter names ty) node =
     (case GetName node of
        Inl err \<Rightarrow> Inl err
      | Inr (nodeName, exists) \<Rightarrow>
          if \<not> exists then Inr False
          else Inr (TypeOf node = ty \<and> matched names nodeName))"
| "Filter (RegexpFilter pattern ty) node =
     (case GetName node of
        Inl err \<Rightarrow> Inl err
      | Inr (nodeName, exists) \<Rightarrow>
          if \<not> exists then Inr False
          else Inr (TypeOf node = ty \<and> MatchString pattern nodeName))"
| "Filter (MethodFilter receiverType exportedOnly) node =
     (case node of
        Some (NDecl (FuncDecl recv name _ _)) \<Rightarrow>
          (case recv of
             None \<Rightarrow> Inr False
           | Some list \<Rightarrow>
               if length list \<noteq> 1 then Inr False
               else (case typeName (fieldType (list ! 0)) of
                       (recvType, _) \<Rightarrow>
                         if recvType \<noteq> receiverType then Inr False
                         else if exportedOnly \<and> \<not> IsExported name then Inr False
                         else Inr True))
      | _ \<Rightarrow> Inr False)"
| "Filter (FilterFunc f) node = Inr (f node)"

subsection \<open>The traversal\<close>

text \<open>\<^verbatim>\<open>ast.Walk\<close> with a \<^verbatim>\<open>visitFunc\<close> as visitor: the function is called on the node;
  when it answers "descend", the children are walked in order and the function is called
  once more, on nil. The state \<open>'s\<close> is what the closure captures and updates.\<close>

type_synonym 's visitFunc = "'s \<Rightarrow> node option \<Rightarrow> error + (bool \<times> 's)"

lemma esize_pos: "0 < esize e"
  by (cases e) simp_all

lemma nsize_pos: "0 < nsize n"
proof (cases n)
  case (NExpr e) then show ?thesis by (simp add: esize_pos)
next
  case (NField f) then show ?thesis by (cases f) simp
next
  case (NFieldList fs) then show ?thesis by (simp add: flsize_def)
next
  case (NFuncType t) then show ?thesis by (cases t) simp
next
  case (NStmt s) then show ?thesis by (cases s) simp_all
next
  case (NSpec s) then show ?thesis by (cases s) (simp_all split: option.splits)
next
  case (NDecl d) then show ?thesis by (cases d) simp_all
next
  case (NFile f) then show ?thesis by (cases f) simp
qed

lemma sum_list_ones: "(\<Sum>x\<leftarrow>xs. Suc 0) = length xs"
  by (induction xs) simp_all

lemma children_nsize: "sum_list (map nsize (children n)) < nsize n"
proof (cases n)
  case (NExpr e) then show ?thesis
    by (cases e) (simp_all add: comp_def split: option.splits)
next
  case (NField f) then show ?thesis by (cases f) (simp add: comp_def sum_list_ones)
next
  case (NFieldList fs) then show ?thesis by (simp add: flsize_def comp_def)
next
  case (NFuncType t) then show ?thesis by (cases t) (simp split: option.splits)
next
  case (NStmt s) then show ?thesis by (cases s) (simp_all add: comp_def)
next
  case (NSpec s) then show ?thesis by (cases s) (simp_all split: option.splits)
next
  case (NDecl d) then show ?thesis
    by (cases d) (simp_all add: comp_def split: option.splits)
next
  case (NFile f) then show ?thesis by (cases f) (simp add: comp_def)
qed

lemma children_nsize_twice: "Suc (2 * sum_list (map nsize (children n))) < 2 * nsize n"
  using children_nsize [of n] by arith

lemma nsize_ge_one: "Suc 0 \<le> nsize n"
  using nsize_pos [of n] by arith

function Walk :: "'s visitFunc \<Rightarrow> node \<Rightarrow> 's \<Rightarrow> error + 's"
  and walkList :: "'s visitFunc \<Rightarrow> node list \<Rightarrow> 's \<Rightarrow> error + 's" where
  "Walk v node s =
     (case v s (Some node) of
        Inl err \<Rightarrow> Inl err
      | Inr (descend, s1) \<Rightarrow>
          if \<not> descend then Inr s1
          else (case walkList v (children node) s1 of
                  Inl err \<Rightarrow> Inl err
                | Inr s2 \<Rightarrow>
                    (case v s2 None of
                       Inl err \<Rightarrow> Inl err
                     | Inr (_, s3) \<Rightarrow> Inr s3)))"
| "walkList v [] s = Inr s"
| "walkList v (n # ns) s =
     (case Walk v n s of
        Inl err \<Rightarrow> Inl err
      | Inr s1 \<Rightarrow> walkList v ns s1)"
  by pat_completeness auto
termination
  by (relation "measure (\<lambda>x. case x of
          Inl (v, n, s) \<Rightarrow> 2 * nsize n
        | Inr (v, ns, s) \<Rightarrow> 2 * sum_list (map nsize ns) + 1)")
     (auto simp: children_nsize_twice nsize_ge_one nsize_pos)

text \<open>The closure that \<^verbatim>\<open>find\<close> hands to \<^verbatim>\<open>ast.Walk\<close>; its state is the slice
  \<^verbatim>\<open>found\<close>.\<close>

definition findVisit :: "nodeFilter \<Rightarrow> node option list visitFunc" where
  "findVisit flt found node =
     (case Filter flt node of
        Inl err \<Rightarrow> Inl err
      | Inr True \<Rightarrow> Inr (False, found @ [node])
      | Inr False \<Rightarrow> Inr (True, found))"

definition find_node :: "node \<Rightarrow> nodeFilter \<Rightarrow> error + node option list" where
  "find_node node flt = Walk (findVisit flt) node []"

text \<open>\<^verbatim>\<open>Find\<close>: the loop over the roots, appending what \<^verbatim>\<open>find\<close> returns for each.\<close>

fun FindLoop :: "node list \<Rightarrow> nodeFilter \<Rightarrow> node option list \<Rightarrow> error + node option list" where
  "FindLoop [] flt found = Inr found"
| "FindLoop (node # nodes) flt found =
     (case find_node node flt of
        Inl err \<Rightarrow> Inl err
      | Inr r \<Rightarrow> FindLoop nodes flt (found @ r))"

definition Find :: "node list \<Rightarrow> nodeFilter \<Rightarrow> error + node option list" where
  "Find nodes flt = FindLoop nodes flt []"

subsection \<open>Auxiliary notions for stating the properties\<close>

text \<open>The walk over a list of nodes with the closure of \<^verbatim>\<open>find\<close>, started on an empty
  slice; and the effect of appending to a slice that is already there.\<close>

definition findList :: "node list \<Rightarrow> nodeFilter \<Rightarrow> error + node option list" where
  "findList ns flt = walkList (findVisit flt) ns []"

definition appendTo :: "'a list \<Rightarrow> error + 'a list \<Rightarrow> error + 'a list" where
  "appendTo acc x = (case x of Inl err \<Rightarrow> Inl err | Inr r \<Rightarrow> Inr (acc @ r))"

text \<open>What the closure leaves in \<open>found\<close> when it is called on nil after the children.\<close>

definition afterNil :: "nodeFilter \<Rightarrow> node option list \<Rightarrow> error + node option list" where
  "afterNil f r =
     (case Filter f None of
        Inl err \<Rightarrow> Inl err
      | Inr True \<Rightarrow> Inr (r @ [None])
      | Inr False \<Rightarrow> Inr r)"

text \<open>A node handle is a pointer into the tree; two occurrences of equal subtrees are
  different nodes. A position (the child indices on the way down from the root) stands
  for the handle: \<open>nodeAt p root\<close> is the node at position \<open>p\<close>, and \<open>preorder root\<close>
  lists all positions below \<open>root\<close> in document order (a node before its children, the
  children from left to right).\<close>

lemma child_nsize: "c \<in> set (children n) \<Longrightarrow> nsize c < nsize n"
  using children_nsize [of n] member_le_sum_list [of "nsize c" "map nsize (children n)"]
  by force

fun nodeAt :: "nat list \<Rightarrow> node \<Rightarrow> node option" where
  "nodeAt [] n = Some n"
| "nodeAt (i # p) n = (if i < length (children n) then nodeAt p (children n ! i) else None)"

function preorder :: "node \<Rightarrow> nat list list" where
  "preorder n =
     [] # concat (map (\<lambda>i. map ((#) i) (preorder (children n ! i))) [0..<length (children n)])"
  by pat_completeness auto
termination
  by (relation "measure nsize") (auto simp: child_nsize)

text \<open>The node at \<open>p\<close> satisfies the filter; and: it does so while no proper ancestor
  of it below the root does (the matches that pruning leaves).\<close>

definition matchesAt :: "nodeFilter \<Rightarrow> node \<Rightarrow> nat list \<Rightarrow> bool" where
  "matchesAt f root p =
     (case nodeAt p root of None \<Rightarrow> False | Some n \<Rightarrow> Filter f (Some n) = Inr True)"

definition selected :: "nodeFilter \<Rightarrow> node \<Rightarrow> nat list \<Rightarrow> bool" where
  "selected f root p =
     (matchesAt f root p \<and> list_all (\<lambda>k. \<not> matchesAt f root (take k p)) [0..<length p])"

text \<open>The matches of one root in document order, as positions.\<close>

definition foundAt :: "nodeFilter \<Rightarrow> node \<Rightarrow> nat list list" where
  "foundAt f root = filter (selected f root) (preorder root)"

text \<open>A predicate for \<^verbatim>\<open>FilterFunc\<close> that accepts every node (and not nil).\<close>

definition everyNode :: "node option \<Rightarrow> bool" where
  "everyNode n = (n \<noteq> None)"

section \<open>Properties\<close>

declare Walk.simps [simp del]
declare preorder.simps [simp del]

subsection \<open>The walk with the closure of \<^verbatim>\<open>find\<close>\<close>

lemma appendTo_simps [simp]:
  "appendTo acc (Inl err) = Inl err"
  "appendTo acc (Inr r) = Inr (acc @ r)"
  by (simp_all add: appendTo_def)

lemma walkList_acc:
  assumes "\<And>c acc. c \<in> set cs \<Longrightarrow> Walk (findVisit f) c acc = appendTo acc (Walk (findVisit f) c [])"
  shows "walkList (findVisit f) cs acc = appendTo acc (walkList (findVisit f) cs [])"
  using assms
proof (induction cs arbitrary: acc)
  case Nil
  then show ?case by simp
next
  case (Cons c cs)
  have c: "Walk (findVisit f) c acc = appendTo acc (Walk (findVisit f) c [])"
    by (rule Cons.prems) simp
  show ?case
  proof (cases "Walk (findVisit f) c []")
    case (Inl err)
    with c show ?thesis by simp
  next
    case (Inr r)
    have "walkList (findVisit f) cs (acc @ r) = appendTo (acc @ r) (walkList (findVisit f) cs [])"
      by (rule Cons.IH, rule Cons.prems) simp
    moreover have "walkList (findVisit f) cs r = appendTo r (walkList (findVisit f) cs [])"
      by (rule Cons.IH, rule Cons.prems) simp
    ultimately show ?thesis using c Inr
      by (cases "walkList (findVisit f) cs []") simp_all
  qed
qed

lemma findVisit_Inl: "Filter f x = Inl err \<Longrightarrow> findVisit f s x = Inl err"
  by (simp add: findVisit_def)

lemma findVisit_True: "Filter f x = Inr True \<Longrightarrow> findVisit f s x = Inr (False, s @ [x])"
  by (simp add: findVisit_def)

lemma findVisit_False: "Filter f x = Inr False \<Longrightarrow> findVisit f s x = Inr (True, s)"
  by (simp add: findVisit_def)

lemma Walk_Inl: "Filter f (Some n) = Inl err \<Longrightarrow> Walk (findVisit f) n s = Inl err"
  by (simp add: Walk.simps [of _ n] findVisit_Inl)

lemma Walk_True: "Filter f (Some n) = Inr True \<Longrightarrow> Walk (findVisit f) n s = Inr (s @ [Some n])"
  by (simp add: Walk.simps [of _ n] findVisit_True)

lemma Walk_False:
  assumes "Filter f (Some n) = Inr False"
  shows "Walk (findVisit f) n s =
     (case walkList (findVisit f) (children n) s of
        Inl err \<Rightarrow> Inl err
      | Inr s2 \<Rightarrow> afterNil f s2)"
proof (cases "Filter f None")
  case (Inl err)
  then show ?thesis using assms
    by (simp add: Walk.simps [of _ n] findVisit_False findVisit_Inl afterNil_def
        cong: sum.case_cong)
next
  case (Inr m)
  then show ?thesis using assms
    by (cases m)
      (simp_all add: Walk.simps [of _ n] findVisit_False findVisit_True afterNil_def
        cong: sum.case_cong)
qed

lemma afterNil_acc: "afterNil f (acc @ r) = appendTo acc (afterNil f r)"
proof (cases "Filter f None")
  case (Inl err)
  then show ?thesis by (simp add: afterNil_def)
next
  case (Inr m)
  then show ?thesis by (cases m) (simp_all add: afterNil_def)
qed

lemma Walk_acc: "Walk (findVisit f) n acc = appendTo acc (Walk (findVisit f) n [])"
proof (induction n arbitrary: acc rule: measure_induct_rule [of nsize])
  case (less n)
  have kids: "walkList (findVisit f) (children n) a = appendTo a (walkList (findVisit f) (children n) [])" for a
    by (rule walkList_acc, rule less.IH, rule child_nsize)
  show ?case
  proof (cases "Filter f (Some n)")
    case (Inl err)
    then show ?thesis by (simp add: Walk_Inl)
  next
    case (Inr m)
    show ?thesis
    proof (cases m)
      case True
      with Inr show ?thesis by (simp add: Walk_True)
    next
      case False
      with Inr have F: "Filter f (Some n) = Inr False" by simp
      show ?thesis
      proof (cases "walkList (findVisit f) (children n) []")
        case (Inl err)
        with kids [of acc] show ?thesis
          by (simp add: Walk_False [OF F])
      next
        case r: (Inr r)
        with kids [of acc] afterNil_acc [of f acc r] show ?thesis
          by (simp add: Walk_False [OF F])
      qed
    qed
  qed
qed

lemma find_node_Inl: "Filter f (Some n) = Inl err \<Longrightarrow> find_node n f = Inl err"
  by (simp add: find_node_def Walk_Inl)

lemma find_node_True: "Filter f (Some n) = Inr True \<Longrightarrow> find_node n f = Inr [Some n]"
  by (simp add: find_node_def Walk_True)

lemma find_node_False:
  "Filter f (Some n) = Inr False \<Longrightarrow>
   find_node n f =
     (case findList (children n) f of Inl err \<Rightarrow> Inl err | Inr r \<Rightarrow> afterNil f r)"
  by (simp add: find_node_def findList_def Walk_False)

lemma findList_Nil [simp]: "findList [] f = Inr []"
  by (simp add: findList_def)

lemma findList_Cons:
  "findList (c # cs) f =
     (case find_node c f of
        Inl err \<Rightarrow> Inl err
      | Inr r \<Rightarrow> appendTo r (findList cs f))"
proof (cases "Walk (findVisit f) c []")
  case (Inl err)
  then show ?thesis by (simp add: findList_def find_node_def)
next
  case (Inr r)
  have "walkList (findVisit f) cs r = appendTo r (walkList (findVisit f) cs [])"
    by (rule walkList_acc) (rule Walk_acc)
  with Inr show ?thesis by (simp add: findList_def find_node_def)
qed

lemma FindLoop_findList: "FindLoop ns f acc = appendTo acc (findList ns f)"
proof (induction ns arbitrary: acc)
  case Nil
  then show ?case by simp
next
  case (Cons n ns)
  then show ?case
    by (cases "findList ns f") (simp_all add: findList_Cons split: sum.splits)
qed

lemma Find_findList: "Find ns f = findList ns f"
  by (cases "findList ns f") (simp_all add: Find_def FindLoop_findList)

subsection \<open>The result of \<^verbatim>\<open>find\<close> in terms of positions\<close>

lemma selected_iff:
  "selected f root p =
     (matchesAt f root p \<and> (\<forall>k<length p. \<not> matchesAt f root (take k p)))"
  by (auto simp: selected_def list_all_iff)

lemma selected_Nil: "selected f n [] = (Filter f (Some n) = Inr True)"
  by (simp add: selected_iff matchesAt_def)

lemma selected_below_match: "Filter f (Some n) = Inr True \<Longrightarrow> \<not> selected f n (i # p)"
proof -
  assume "Filter f (Some n) = Inr True"
  then have "matchesAt f n (take 0 (i # p))" by (simp add: matchesAt_def)
  then show ?thesis unfolding selected_iff by (metis length_Cons zero_less_Suc)
qed

lemma matchesAt_Cons:
  "i < length (children n) \<Longrightarrow> matchesAt f n (i # p) = matchesAt f (children n ! i) p"
  by (simp add: matchesAt_def)

lemma selected_Cons:
  assumes "Filter f (Some n) \<noteq> Inr True" and "i < length (children n)"
  shows "selected f n (i # p) = selected f (children n ! i) p"
proof -
  have "\<not> matchesAt f n []"
    using assms(1) by (simp add: matchesAt_def)
  then have "(\<forall>k<length (i # p). \<not> matchesAt f n (take k (i # p))) =
        (\<forall>k<length p. \<not> matchesAt f (children n ! i) (take k p))"
    using assms(2) by (simp add: All_less_Suc2 matchesAt_Cons)
  then show ?thesis
    unfolding selected_iff using assms(2) by (simp only: matchesAt_Cons)
qed

lemma foundAt_match: "Filter f (Some n) = Inr True \<Longrightarrow> foundAt f n = [[]]"
  by (simp add: foundAt_def preorder.simps [of n] selected_Nil selected_below_match
      filter_concat filter_empty_conv comp_def)

lemma foundAt_descend:
  assumes "Filter f (Some n) \<noteq> Inr True"
  shows "foundAt f n =
     concat (map (\<lambda>i. map ((#) i) (foundAt f (children n ! i))) [0..<length (children n)])"
proof -
  have step: "filter (selected f n) (map ((#) i) ps) = map ((#) i) (filter (selected f (children n ! i)) ps)"
    if "i < length (children n)" for i ps
    using that assms by (simp add: filter_map comp_def selected_Cons)
  have "foundAt f n =
      concat (map (\<lambda>i. filter (selected f n) (map ((#) i) (preorder (children n ! i))))
        [0..<length (children n)])"
    using assms
    by (simp add: foundAt_def preorder.simps [of n] selected_Nil filter_concat comp_def)
  also have "\<dots> =
      concat (map (\<lambda>i. map ((#) i) (foundAt f (children n ! i))) [0..<length (children n)])"
    by (rule arg_cong [where f = concat], rule map_cong) (simp_all add: step foundAt_def)
  finally show ?thesis .
qed

lemma findList_nonnil:
  assumes "findList cs f = Inr rs"
    and "\<And>c r. c \<in> set cs \<Longrightarrow> find_node c f = Inr r \<Longrightarrow> filter (\<lambda>x. x \<noteq> None) r = G c"
  shows "filter (\<lambda>x. x \<noteq> None) rs = concat (map G cs)"
  using assms
proof (induction cs arbitrary: rs)
  case Nil
  then show ?case by simp
next
  case (Cons c cs)
  from Cons.prems(1) obtain r rs' where r: "find_node c f = Inr r"
    and rs': "findList cs f = Inr rs'" and rs: "rs = r @ rs'"
    by (auto simp: findList_Cons appendTo_def split: sum.splits)
  have "filter (\<lambda>x. x \<noteq> None) r = G c"
    using Cons.prems(2) r by simp
  moreover have "filter (\<lambda>x. x \<noteq> None) rs' = concat (map G cs)"
    using Cons.IH [OF rs'] Cons.prems(2) by simp
  ultimately show ?case by (simp add: rs)
qed

lemma afterNil_nonnil: "afterNil f r = Inr r' \<Longrightarrow> filter (\<lambda>x. x \<noteq> None) r' = filter (\<lambda>x. x \<noteq> None) r"
  by (auto simp: afterNil_def split: sum.splits bool.splits)

lemma find_node_foundAt:
  "find_node n f = Inr r \<Longrightarrow> filter (\<lambda>x. x \<noteq> None) r = map (\<lambda>p. nodeAt p n) (foundAt f n)"
proof (induction n arbitrary: r rule: measure_induct_rule [of nsize])
  case (less n)
  show ?case
  proof (cases "Filter f (Some n) = Inr True")
    case True
    with less.prems show ?thesis
      by (auto simp: find_node_True foundAt_match)
  next
    case False
    with less.prems have F: "Filter f (Some n) = Inr False"
      by (cases "Filter f (Some n)") (auto simp: find_node_Inl)
    from less.prems obtain rs where rs: "findList (children n) f = Inr rs"
      and r: "afterNil f rs = Inr r"
      by (auto simp: find_node_False [OF F] split: sum.splits)
    let ?G = "\<lambda>c. map (\<lambda>p. nodeAt p c) (foundAt f c)"
    have "filter (\<lambda>x. x \<noteq> None) rs = concat (map ?G (children n))"
      using rs by (rule findList_nonnil) (rule less.IH, rule child_nsize)
    also have "\<dots> = concat (map ?G (map ((!) (children n)) [0..<length (children n)]))"
      by (simp only: map_nth)
    also have "\<dots> = concat (map (\<lambda>i. map (\<lambda>p. nodeAt (i # p) n) (foundAt f (children n ! i)))
        [0..<length (children n)])"
      by (rule arg_cong [where f = concat]) simp
    also have "\<dots> = map (\<lambda>p. nodeAt p n) (foundAt f n)"
      by (simp add: foundAt_descend [OF False] map_concat comp_def)
    finally show ?thesis
      using afterNil_nonnil [OF r] by simp
  qed
qed

lemma findList_all:
  assumes "findList cs f = Inr rs"
    and "\<And>c r. c \<in> set cs \<Longrightarrow> find_node c f = Inr r \<Longrightarrow> \<forall>x\<in>set r. P x"
  shows "\<forall>x\<in>set rs. P x"
  using assms
proof (induction cs arbitrary: rs)
  case Nil
  then show ?case by simp
next
  case (Cons c cs)
  from Cons.prems(1) obtain r rs' where r: "find_node c f = Inr r"
    and rs': "findList cs f = Inr rs'" and rs: "rs = r @ rs'"
    by (auto simp: findList_Cons appendTo_def split: sum.splits)
  have "\<forall>x\<in>set r. P x"
    using Cons.prems(2) [of c r] r by simp
  moreover have "\<forall>x\<in>set rs'. P x"
    by (rule Cons.IH [OF rs'], rule Cons.prems(2)) simp_all
  ultimately show ?case by (auto simp: rs)
qed

lemma find_node_all_match:
  "find_node n f = Inr r \<Longrightarrow> \<forall>x\<in>set r. Filter f x = Inr True"
proof (induction n arbitrary: r rule: measure_induct_rule [of nsize])
  case (less n)
  show ?case
  proof (cases "Filter f (Some n) = Inr True")
    case True
    with less.prems show ?thesis
      by (auto simp: find_node_True)
  next
    case False
    with less.prems have F: "Filter f (Some n) = Inr False"
      by (cases "Filter f (Some n)") (auto simp: find_node_Inl)
    from less.prems obtain rs where rs: "findList (children n) f = Inr rs"
      and r: "afterNil f rs = Inr r"
      by (auto simp: find_node_False [OF F] split: sum.splits)
    have "\<forall>x\<in>set rs. Filter f x = Inr True"
      using rs by (rule findList_all) (rule less.IH, rule child_nsize)
    then show ?thesis using r
      by (auto simp: afterNil_def split: sum.splits bool.splits)
  qed
qed

lemma Find_all_match:
  assumes "Find roots f = Inr found" and "x \<in> set found"
  shows "Filter f x = Inr True"
proof -
  have "findList roots f = Inr found"
    using assms(1) by (simp add: Find_findList)
  then have "\<forall>x\<in>set found. Filter f x = Inr True"
    by (rule findList_all) (rule find_node_all_match)
  with assms(2) show ?thesis by simp
qed

lemma not_selected_below_match:
  assumes "matchesAt f root p" and "q \<noteq> []"
  shows "\<not> selected f root (p @ q)"
proof
  assume "selected f root (p @ q)"
  then have "\<forall>k<length (p @ q). \<not> matchesAt f root (take k (p @ q))"
    by (simp add: selected_iff)
  moreover have "length p < length (p @ q)"
    using assms(2) by simp
  ultimately have "\<not> matchesAt f root (take (length p) (p @ q))"
    by blast
  with assms(1) show False by simp
qed

lemma afterNil_False: "Filter f None = Inr False \<Longrightarrow> afterNil f r = Inr r"
  by (simp add: afterNil_def)

lemma afterNil_True: "Filter f None = Inr True \<Longrightarrow> afterNil f r = Inr (r @ [None])"
  by (simp add: afterNil_def)

text \<open>\<open>preorder\<close> lists exactly the positions at which there is a node, and \<open>foundAt\<close>
  exactly those of them that are selected.\<close>

lemma preorder_iff: "(p \<in> set (preorder n)) = (nodeAt p n \<noteq> None)"
proof (induction p arbitrary: n)
  case Nil
  then show ?case by (simp add: preorder.simps [of n])
next
  case (Cons i q)
  have "(i # q \<in> set (preorder n)) =
      (i < length (children n) \<and> q \<in> set (preorder (children n ! i)))"
    by (auto simp: preorder.simps [of n])
  then show ?case by (simp add: Cons.IH)
qed

lemma foundAt_iff: "(p \<in> set (foundAt f root)) = selected f root p"
proof -
  have "selected f root p \<Longrightarrow> nodeAt p root \<noteq> None"
    by (auto simp: selected_def matchesAt_def split: option.splits)
  then show ?thesis
    by (auto simp: foundAt_def preorder_iff)
qed

subsection \<open>Match-pruning\<close>

text \<open>C1: when \<^verbatim>\<open>find\<close> returns, its non-nil results are the nodes at the positions
  \<open>foundAt\<close>, one entry per position and in that order; if the node \<open>N\<close> at position
  \<open>p\<close> satisfies the filter, no position \<open>p @ q\<close> properly below it is among them,
  whatever the filter says about the node there; and \<^verbatim>\<open>find\<close> started on \<open>N\<close> itself
  returns \<open>N\<close> alone.\<close>

theorem find_prunes_below_match:
  assumes "find_node root f = Inr found"
    and "nodeAt p root = Some N"
    and "Filter f (Some N) = Inr True"
    and "q \<noteq> []"
  shows "filter (\<lambda>x. x \<noteq> None) found = map (\<lambda>p. nodeAt p root) (foundAt f root)
    \<and> p @ q \<notin> set (foundAt f root)
    \<and> find_node N f = Inr [Some N]"
proof -
  have "matchesAt f root p"
    using assms(2,3) by (simp add: matchesAt_def)
  then have "p @ q \<notin> set (foundAt f root)"
    using assms(4) by (simp add: foundAt_def not_selected_below_match)
  then show ?thesis
    using find_node_foundAt [OF assms(1)] find_node_True [OF assms(3)] by simp
qed

text \<open>An instance: in the statement \<^verbatim>\<open>a.b.c\<close> both selector expressions satisfy the
  filter; the outer one is returned and the inner one, below it, is not.\<close>

theorem find_prunes_below_match_witness:
  "find_node (NStmt (ExprStmt (SelectorExpr (SelectorExpr (Ident ''a'') ''b'') ''c'')))
     (RegexpFilter (Star AnyCharNotNL) (Some TSelectorExpr))
     = Inr [Some (NExpr (SelectorExpr (SelectorExpr (Ident ''a'') ''b'') ''c''))]
   \<and> nodeAt [0] (NStmt (ExprStmt (SelectorExpr (SelectorExpr (Ident ''a'') ''b'') ''c'')))
     = Some (NExpr (SelectorExpr (SelectorExpr (Ident ''a'') ''b'') ''c''))
   \<and> Filter (RegexpFilter (Star AnyCharNotNL) (Some TSelectorExpr))
       (Some (NExpr (SelectorExpr (SelectorExpr (Ident ''a'') ''b'') ''c''))) = Inr True
   \<and> nodeAt ([0] @ [0]) (NStmt (ExprStmt (SelectorExpr (SelectorExpr (Ident ''a'') ''b'') ''c'')))
     = Some (NExpr (SelectorExpr (Ident ''a'') ''b''))
   \<and> Filter (RegexpFilter (Star AnyCharNotNL) (Some TSelectorExpr))
       (Some (NExpr (SelectorExpr (Ident ''a'') ''b''))) = Inr True
   \<and> [0] @ [0] \<notin> set (foundAt (RegexpFilter (Star AnyCharNotNL) (Some TSelectorExpr))
       (NStmt (ExprStmt (SelectorExpr (SelectorExpr (Ident ''a'') ''b'') ''c''))))"
proof -
  let ?f = "RegexpFilter (Star AnyCharNotNL) (Some TSelectorExpr)"
  let ?N = "NExpr (SelectorExpr (SelectorExpr (Ident ''a'') ''b'') ''c'')"
  let ?root = "NStmt (ExprStmt (SelectorExpr (SelectorExpr (Ident ''a'') ''b'') ''c''))"
  have N: "Filter ?f (Some ?N) = Inr True" by code_simp
  have M: "Filter ?f (Some (NExpr (SelectorExpr (Ident ''a'') ''b''))) = Inr True" by code_simp
  have R: "Filter ?f (Some ?root) = Inr False" by code_simp
  have Z: "Filter ?f None = Inr False" by code_simp
  have found: "find_node ?root ?f = Inr [Some ?N]"
    by (simp add: find_node_False [OF R] findList_Cons find_node_True [OF N] afterNil_False [OF Z])
  have at: "nodeAt [0] ?root = Some ?N" by simp
  have q: "[0::nat] \<noteq> []" by simp
  show ?thesis
    using find_prunes_below_match [OF found at N q] found N M by simp
qed

subsection \<open>What \<^verbatim>\<open>Find\<close> returns\<close>

lemma Nil_in_preorder: "[] \<in> set (preorder n)"
  by (simp add: preorder.simps [of n])

lemma distinct_preorder: "distinct (preorder n)"
proof (induction n rule: measure_induct_rule [of nsize])
  case (less n)
  let ?F = "\<lambda>i. map ((#) i) (preorder (children n ! i))"
  let ?idx = "[0..<length (children n)]"
  have in_F: "[i] \<in> set (?F i)" for i
    using Nil_in_preorder [of "children n ! i"] by force
  have heads: "p \<in> set (?F i) \<Longrightarrow> \<exists>q. p = i # q" for p i
    by auto
  have "inj_on ?F (set ?idx)"
  proof (rule inj_onI)
    fix i j assume "?F i = ?F j"
    then have "[i] \<in> set (?F j)" using in_F [of i] by simp
    then show "i = j" by auto
  qed
  then have d1: "distinct (map ?F ?idx)"
    by (simp add: distinct_map)
  have d2: "distinct ys" if "ys \<in> set (map ?F ?idx)" for ys
  proof -
    from that obtain i where i: "i < length (children n)" and ys: "ys = ?F i" by auto
    have "distinct (preorder (children n ! i))"
      by (rule less.IH, rule child_nsize) (simp add: i)
    then show ?thesis by (simp add: ys distinct_map)
  qed
  have d3: "set ys \<inter> set zs = {}"
    if "ys \<in> set (map ?F ?idx)" "zs \<in> set (map ?F ?idx)" "ys \<noteq> zs" for ys zs
  proof -
    from that obtain i j where "ys = ?F i" "zs = ?F j" "i \<noteq> j" by auto
    then show ?thesis by auto
  qed
  have "distinct (concat (map ?F ?idx))"
    using d1 d2 d3 by (rule distinct_concat)
  moreover have "[] \<notin> set (concat (map ?F ?idx))"
    by auto
  ultimately show ?case
    by (simp add: preorder.simps [of n])
qed

lemma distinct_foundAt: "distinct (foundAt f n)"
  by (simp add: foundAt_def distinct_preorder)

text \<open>C2, as amended: when \<^verbatim>\<open>Find\<close> returns, every entry of the result satisfies the
  filter. Hence an entry of a \<^verbatim>\<open>SetFilter\<close> or \<^verbatim>\<open>RegexpFilter\<close> result is a node whose
  dynamic type is the filter's \<^verbatim>\<open>Type\<close>, and an entry of a \<^verbatim>\<open>MethodFilter\<close> result is a
  \<^verbatim>\<open>*ast.FuncDecl\<close>. A \<^verbatim>\<open>FilterFunc\<close> has no target kind: its result holds whatever
  the wrapped predicate accepts.\<close>

theorem Find_results_satisfy_filter:
  assumes "Find roots f = Inr found" and "x \<in> set found"
  shows "Filter f x = Inr True \<and>
    (case f of
       SetFilter names ty \<Rightarrow> x \<noteq> None \<and> TypeOf x = ty
     | RegexpFilter pattern ty \<Rightarrow> x \<noteq> None \<and> TypeOf x = ty
     | MethodFilter receiverType exportedOnly \<Rightarrow> TypeOf x = Some TFuncDecl
     | FilterFunc g \<Rightarrow> g x)"
proof -
  have m: "Filter f x = Inr True"
    using assms by (rule Find_all_match)
  have nil: "GetName None = Inr ([], False)"
    by (simp add: GetName_def getStructField_def)
  show ?thesis
  proof (cases f)
    case (SetFilter names ty)
    with m nil show ?thesis
      by (cases x) (auto split: sum.splits if_splits)
  next
    case (RegexpFilter pattern ty)
    with m nil show ?thesis
      by (cases x) (auto split: sum.splits if_splits)
  next
    case (MethodFilter receiverType exportedOnly)
    with m show ?thesis
      by (auto split: option.splits node.splits decl.splits if_splits)
  next
    case (FilterFunc g)
    with m show ?thesis by simp
  qed
qed

theorem Find_results_satisfy_filter_witness:
  "Find [NDecl (GenDecl [TypeSpec ''T'' (Ident ''int'')])] (SetFilter [''T''] (Some TTypeSpec))
     = Inr [Some (NSpec (TypeSpec ''T'' (Ident ''int'')))]
   \<and> Some (NSpec (TypeSpec ''T'' (Ident ''int''))) \<in> set [Some (NSpec (TypeSpec ''T'' (Ident ''int'')))]
   \<and> Filter (SetFilter [''T''] (Some TTypeSpec)) (Some (NSpec (TypeSpec ''T'' (Ident ''int'')))) = Inr True
   \<and> TypeOf (Some (NSpec (TypeSpec ''T'' (Ident ''int'')))) = Some TTypeSpec"
proof -
  let ?f = "SetFilter [''T''] (Some TTypeSpec)"
  let ?t = "NSpec (TypeSpec ''T'' (Ident ''int''))"
  have T: "Filter ?f (Some ?t) = Inr True" by code_simp
  have D: "Filter ?f (Some (NDecl (GenDecl [TypeSpec ''T'' (Ident ''int'')]))) = Inr False" by code_simp
  have Z: "Filter ?f None = Inr False" by code_simp
  have found: "Find [NDecl (GenDecl [TypeSpec ''T'' (Ident ''int'')])] ?f = Inr [Some ?t]"
    by (simp add: Find_findList findList_Cons find_node_False [OF D] find_node_True [OF T]
        afterNil_False [OF Z])
  have mem: "Some ?t \<in> set [Some ?t]" by simp
  show ?thesis
    using Find_results_satisfy_filter [OF found mem] found by simp
qed

text \<open>C2 as stated fails for \<^verbatim>\<open>FilterFunc\<close>: one result holds nodes of two different
  kinds, so no kind is the kind of all results.\<close>

theorem FilterFunc_results_of_two_kinds:
  "Find [NExpr (Ident ''x''), NExpr (BasicLit ''1'')] (FilterFunc everyNode)
     = Inr [Some (NExpr (Ident ''x'')), Some (NExpr (BasicLit ''1''))]
   \<and> TypeOf (Some (NExpr (Ident ''x''))) = Some TIdent
   \<and> TypeOf (Some (NExpr (BasicLit ''1''))) = Some TBasicLit
   \<and> TypeOf (Some (NExpr (Ident ''x''))) \<noteq> TypeOf (Some (NExpr (BasicLit ''1'')))"
  by (simp add: Find_findList findList_Cons find_node_True everyNode_def)

text \<open>C3, as amended: when \<^verbatim>\<open>Find\<close> returns, the non-nil entries of the result are the
  concatenation, in root order, of each root's matches (the nodes that satisfy the filter
  and have no ancestor below that root that does) in document order; among the matches of
  one root no position occurs twice; and the result has no nil entry when the filter
  rejects nil.\<close>

theorem Find_concatenates_matches_in_document_order:
  assumes "Find roots f = Inr found"
  shows "filter (\<lambda>x. x \<noteq> None) found
      = concat (map (\<lambda>r. map (\<lambda>p. nodeAt p r) (foundAt f r)) roots)
    \<and> (\<forall>r\<in>set roots. distinct (foundAt f r))
    \<and> (Filter f None = Inr False \<longrightarrow> None \<notin> set found)"
proof -
  have fl: "findList roots f = Inr found"
    using assms by (simp add: Find_findList)
  have "filter (\<lambda>x. x \<noteq> None) found
      = concat (map (\<lambda>r. map (\<lambda>p. nodeAt p r) (foundAt f r)) roots)"
    using fl by (rule findList_nonnil) (rule find_node_foundAt)
  moreover have "Filter f None = Inr False \<longrightarrow> None \<notin> set found"
    using Find_all_match [OF assms, of None] by auto
  ultimately show ?thesis
    by (simp add: distinct_foundAt)
qed

theorem Find_concatenates_matches_in_document_order_witness:
  "Find [NDecl (GenDecl [TypeSpec ''T'' (Ident ''int'')]), NSpec (TypeSpec ''T'' (Ident ''int''))]
     (SetFilter [''T''] (Some TTypeSpec))
     = Inr [Some (NSpec (TypeSpec ''T'' (Ident ''int''))), Some (NSpec (TypeSpec ''T'' (Ident ''int'')))]
   \<and> Filter (SetFilter [''T''] (Some TTypeSpec)) None = Inr False
   \<and> [Some (NSpec (TypeSpec ''T'' (Ident ''int''))), Some (NSpec (TypeSpec ''T'' (Ident ''int'')))]
     = map (\<lambda>p. nodeAt p (NDecl (GenDecl [TypeSpec ''T'' (Ident ''int'')])))
         (foundAt (SetFilter [''T''] (Some TTypeSpec)) (NDecl (GenDecl [TypeSpec ''T'' (Ident ''int'')])))
       @ map (\<lambda>p. nodeAt p (NSpec (TypeSpec ''T'' (Ident ''int''))))
         (foundAt (SetFilter [''T''] (Some TTypeSpec)) (NSpec (TypeSpec ''T'' (Ident ''int''))))
   \<and> distinct (foundAt (SetFilter [''T''] (Some TTypeSpec)) (NDecl (GenDecl [TypeSpec ''T'' (Ident ''int'')])))
   \<and> distinct (foundAt (SetFilter [''T''] (Some TTypeSpec)) (NSpec (TypeSpec ''T'' (Ident ''int''))))"
proof -
  let ?f = "SetFilter [''T''] (Some TTypeSpec)"
  let ?t = "NSpec (TypeSpec ''T'' (Ident ''int''))"
  let ?d = "NDecl (GenDecl [TypeSpec ''T'' (Ident ''int'')])"
  have T: "Filter ?f (Some ?t) = Inr True" by code_simp
  have D: "Filter ?f (Some ?d) = Inr False" by code_simp
  have Z: "Filter ?f None = Inr False" by code_simp
  have found: "Find [?d, ?t] ?f = Inr [Some ?t, Some ?t]"
    by (simp add: Find_findList findList_Cons find_node_False [OF D] find_node_True [OF T]
        afterNil_False [OF Z])
  show ?thesis
    using Find_concatenates_matches_in_document_order [OF found] found Z by simp
qed

text \<open>C3 as stated fails when a node is reachable from two entries of the root list:
  here the same root is passed twice and its match is returned twice.\<close>

theorem Find_repeats_node_of_repeated_root:
  "Find [NSpec (TypeSpec ''T'' (Ident ''int'')), NSpec (TypeSpec ''T'' (Ident ''int''))]
     (SetFilter [''T''] (Some TTypeSpec))
     = Inr [Some (NSpec (TypeSpec ''T'' (Ident ''int''))), Some (NSpec (TypeSpec ''T'' (Ident ''int'')))]
   \<and> \<not> distinct [Some (NSpec (TypeSpec ''T'' (Ident ''int''))), Some (NSpec (TypeSpec ''T'' (Ident ''int'')))]"
proof -
  have T: "Filter (SetFilter [''T''] (Some TTypeSpec)) (Some (NSpec (TypeSpec ''T'' (Ident ''int'')))) = Inr True"
    by code_simp
  show ?thesis
    by (simp add: Find_findList findList_Cons find_node_True [OF T])
qed

subsection \<open>The set filter and the pattern filter\<close>

lemma matched_iff: "matched names nodeName = (nodeName \<in> set names)"
  by (induction names) auto

text \<open>C6: the set filter matches exactly the nodes of the configured type whose extracted
  identifier is among \<^verbatim>\<open>Names\<close>; two lists with the same elements give the same answer
  on every node.\<close>

theorem SetFilter_matches_iff_member:
  "(Filter (SetFilter names ty) node = Inr True) =
     (TypeOf node = ty \<and> (\<exists>name. GetName node = Inr (name, True) \<and> name \<in> set names))
   \<and> (set names = set names' \<longrightarrow>
        Filter (SetFilter names ty) node = Filter (SetFilter names' ty) node)"
  by (cases "GetName node") (auto simp: matched_iff split: if_splits)

theorem SetFilter_matches_iff_member_witness:
  "set [''A'', ''B'', ''A''] = set [''B'', ''A'']
   \<and> Filter (SetFilter [''A'', ''B'', ''A''] (Some TTypeSpec)) (Some (NSpec (TypeSpec ''A'' (Ident ''int''))))
     = Filter (SetFilter [''B'', ''A''] (Some TTypeSpec)) (Some (NSpec (TypeSpec ''A'' (Ident ''int''))))
   \<and> Filter (SetFilter [''B'', ''A''] (Some TTypeSpec)) (Some (NSpec (TypeSpec ''A'' (Ident ''int''))))
     = Inr True"
proof -
  have s: "set [''A'', ''B'', ''A''] = set [''B'', ''A'']" by auto
  have t: "Filter (SetFilter [''B'', ''A''] (Some TTypeSpec)) (Some (NSpec (TypeSpec ''A'' (Ident ''int''))))
     = Inr True" by code_simp
  show ?thesis
    using SetFilter_matches_iff_member [of "[''A'', ''B'', ''A'']" "Some TTypeSpec"
        "Some (NSpec (TypeSpec ''A'' (Ident ''int'')))" "[''B'', ''A'']"] s t
    by simp
qed

lemma MatchString_iff:
  "MatchString re s =
     (\<exists>pre mid post. s = pre @ mid @ post \<and> accepts re (pre = []) (post = []) mid)"
proof
  assume "MatchString re s"
  then obtain i j where ij: "i \<in> set [0..<Suc (length s)]" "j \<in> set [i..<Suc (length s)]"
    and acc: "accepts re (i = 0) (j = length s) (take (j - i) (drop i s))"
    unfolding MatchString_def list_ex_iff by blast
  from ij have i: "i \<le> length s" and j: "i \<le> j" "j \<le> length s"
    by (simp_all del: upt_Suc)
  let ?pre = "take i s" and ?mid = "take (j - i) (drop i s)" and ?post = "drop (j - i) (drop i s)"
  have P1: "s = ?pre @ ?mid @ ?post" by (simp only: append_take_drop_id)
  have P2: "(?pre = []) = (i = 0)" using i by auto
  have P3: "(?post = []) = (j = length s)" using i j by auto
  have "accepts re (?pre = []) (?post = []) ?mid"
    using acc by (simp only: P2 P3)
  with P1 show "\<exists>pre mid post. s = pre @ mid @ post \<and> accepts re (pre = []) (post = []) mid"
    by blast
next
  assume "\<exists>pre mid post. s = pre @ mid @ post \<and> accepts re (pre = []) (post = []) mid"
  then obtain pre mid post where s: "s = pre @ mid @ post"
    and acc: "accepts re (pre = []) (post = []) mid" by blast
  let ?i = "length pre" and ?j = "length pre + length mid"
  have "accepts re (?i = 0) (?j = length s) (take (?j - ?i) (drop ?i s))"
    using acc by (simp add: s)
  moreover have "?i \<in> set [0..<Suc (length s)]" "?j \<in> set [?i..<Suc (length s)]"
    by (simp_all add: s)
  ultimately show "MatchString re s"
    unfolding MatchString_def list_ex_iff by blast
qed

text \<open>C5: the pattern filter matches exactly the nodes of the configured type in whose
  extracted identifier the pattern matches some slice \<open>mid\<close> (with the begin and end
  assertions of the pattern referring to the whole identifier). In particular the
  unanchored pattern \<^verbatim>\<open>Service\<close> matches the type \<^verbatim>\<open>MyServiceImpl\<close>, which it does not
  match as a whole.\<close>

theorem RegexpFilter_matches_iff_occurrence:
  "(Filter (RegexpFilter pattern ty) node = Inr True) =
     (TypeOf node = ty \<and>
      (\<exists>name. GetName node = Inr (name, True) \<and>
         (\<exists>pre mid post. name = pre @ mid @ post \<and> accepts pattern (pre = []) (post = []) mid)))
   \<and> Filter (RegexpFilter (Literal ''Service'') (Some TTypeSpec))
       (Some (NSpec (TypeSpec ''MyServiceImpl'' (Ident ''int'')))) = Inr True
   \<and> \<not> accepts (Literal ''Service'') True True ''MyServiceImpl''"
proof -
  have "(Filter (RegexpFilter pattern ty) node = Inr True) =
     (TypeOf node = ty \<and> (\<exists>name. GetName node = Inr (name, True) \<and> MatchString pattern name))"
    by (cases "GetName node") (auto split: if_splits)
  then have A: "(Filter (RegexpFilter pattern ty) node = Inr True) =
     (TypeOf node = ty \<and>
      (\<exists>name. GetName node = Inr (name, True) \<and>
         (\<exists>pre mid post. name = pre @ mid @ post \<and> accepts pattern (pre = []) (post = []) mid)))"
    by (simp only: MatchString_iff)
  have B: "Filter (RegexpFilter (Literal ''Service'') (Some TTypeSpec))
       (Some (NSpec (TypeSpec ''MyServiceImpl'' (Ident ''int'')))) = Inr True"
    by code_simp
  have C: "\<not> accepts (Literal ''Service'') True True ''MyServiceImpl''"
    by simp
  show ?thesis
    by (rule conjI [OF A conjI [OF B C]])
qed

subsection \<open>Identifier extraction\<close>

text \<open>The not-found outcome of the extraction is a non-match for both identifier-based
  filters.\<close>

lemma GetName_not_found_is_non_match:
  assumes "GetName node = Inr (name, False)"
  shows "Filter (SetFilter names ty) node = Inr False"
    and "Filter (RegexpFilter pattern ty) node = Inr False"
  using assms by simp_all

text \<open>On the nodes modelled here, the extraction panics exactly on an import without
  alias.\<close>

lemma GetName_panics_iff:
  "(GetName n = Inl err) =
     (err = NilPointerDereference \<and> (\<exists>path. n = Some (NSpec (ImportSpec None path))))"
proof (cases n)
  case None
  then show ?thesis by (simp add: GetName_def getStructField_def)
next
  case (Some m)
  show ?thesis
  proof (cases m)
    case (NExpr e)
    with Some show ?thesis by (cases e) (simp_all add: GetName_def getStructField_def)
  next
    case (NField f)
    with Some show ?thesis by (simp add: GetName_def getStructField_def)
  next
    case (NFieldList fs)
    with Some show ?thesis by (simp add: GetName_def getStructField_def)
  next
    case (NFuncType t)
    with Some show ?thesis by (simp add: GetName_def getStructField_def)
  next
    case (NStmt st)
    with Some show ?thesis by (cases st) (simp_all add: GetName_def getStructField_def)
  next
    case (NSpec sp)
    with Some show ?thesis
      by (cases sp) (auto simp: GetName_def getStructField_def split: option.splits)
  next
    case (NDecl d)
    with Some show ?thesis by (cases d) (simp_all add: GetName_def getStructField_def)
  next
    case (NFile fl)
    with Some show ?thesis by (cases fl) (simp add: GetName_def getStructField_def)
  qed
qed

text \<open>C7 fails on an import without alias: its \<^verbatim>\<open>Name\<close> field exists and holds a nil
  \<^verbatim>\<open>*ast.Ident\<close>, which is not the nil interface that \<^verbatim>\<open>GetName\<close> tests for; the
  dereference panics, and so does every \<^verbatim>\<open>Find\<close> with a set or pattern filter that
  reaches such an import.\<close>

theorem GetName_panics_on_import_without_alias:
  "GetName (Some (NSpec (ImportSpec None ''fmt''))) = Inl NilPointerDereference
   \<and> Find [NFile (File ''main'' [GenDecl [ImportSpec None ''fmt''],
                                   GenDecl [TypeSpec ''T'' (Ident ''int'')]])]
        (SetFilter [''T''] (Some TTypeSpec)) = Inl NilPointerDereference"
proof -
  let ?f = "SetFilter [''T''] (Some TTypeSpec)"
  have g: "GetName (Some (NSpec (ImportSpec None ''fmt''))) = Inl NilPointerDereference"
    by (simp add: GetName_def getStructField_def)
  have I: "Filter ?f (Some (NSpec (ImportSpec None ''fmt''))) = Inl NilPointerDereference"
    by (simp add: g)
  have F: "Filter ?f (Some (NFile (File ''main'' [GenDecl [ImportSpec None ''fmt''],
                                   GenDecl [TypeSpec ''T'' (Ident ''int'')]]))) = Inr False"
    by code_simp
  have N: "Filter ?f (Some (NExpr (Ident ''main''))) = Inr False" by code_simp
  have D: "Filter ?f (Some (NDecl (GenDecl [ImportSpec None ''fmt'']))) = Inr False" by code_simp
  have Z: "Filter ?f None = Inr False" by code_simp
  show ?thesis
    by (simp add: g Find_findList findList_Cons find_node_False [OF F] find_node_False [OF N]
        find_node_False [OF D] find_node_Inl [OF I] afterNil_False [OF Z])
qed

lemma getName_None: "getName None = ([], False)"
  by (simp add: getName_def getStructField_def)

lemma getName_Some_expr:
  "getName (Some (NExpr e)) = (name, True) \<Longrightarrow> e = Ident name"
  by (cases e) (simp_all add: getName_def getStructField_def)

lemma getName_Some:
  assumes "getName n = (name, True)"
  shows "n = Some (NExpr (Ident name))"
proof (cases n)
  case None
  with assms show ?thesis by (simp add: getName_None)
next
  case (Some m)
  show ?thesis
  proof (cases m)
    case (NExpr e)
    with assms Some show ?thesis by (simp add: getName_Some_expr)
  next
    case (NField f)
    with assms Some show ?thesis by (simp add: getName_def getStructField_def)
  next
    case (NFieldList fs)
    with assms Some show ?thesis by (simp add: getName_def getStructField_def)
  next
    case (NFuncType t)
    with assms Some show ?thesis by (simp add: getName_def getStructField_def)
  next
    case (NStmt st)
    with assms Some show ?thesis by (cases st) (simp_all add: getName_def getStructField_def)
  next
    case (NSpec sp)
    with assms Some show ?thesis by (cases sp) (simp_all add: getName_def getStructField_def)
  next
    case (NDecl d)
    with assms Some show ?thesis by (cases d) (simp_all add: getName_def getStructField_def)
  next
    case (NFile fl)
    with assms Some show ?thesis by (cases fl) (simp add: getName_def getStructField_def)
  qed
qed

text \<open>C9, as amended: wherever the earlier \<^verbatim>\<open>getName\<close> returns an identifier (the
  \<^verbatim>\<open>Name\<close> field holds a string, as in \<^verbatim>\<open>*ast.Ident\<close>), the later \<^verbatim>\<open>GetName\<close> reports
  not-found; and the later one succeeds on a node where the earlier one fails (a
  \<^verbatim>\<open>FuncDecl\<close>, whose \<^verbatim>\<open>Name\<close> holds an \<^verbatim>\<open>*ast.Ident\<close>).\<close>

theorem GetName_succeeds_only_where_getName_fails:
  "(snd (getName n) \<longrightarrow> GetName n = Inr ([], False))
   \<and> GetName (Some (NDecl (FuncDecl None ''Get'' (FuncType [] None) None))) = Inr (''Get'', True)
   \<and> getName (Some (NDecl (FuncDecl None ''Get'' (FuncType [] None) None))) = ([], False)"
proof -
  have "GetName n = Inr ([], False)" if "snd (getName n)"
  proof -
    from that have "getName n = (fst (getName n), True)"
      by (cases "getName n") simp
    then have "n = Some (NExpr (Ident (fst (getName n))))"
      by (rule getName_Some)
    then obtain a where "n = Some (NExpr (Ident a))" ..
    then show ?thesis
      by (simp add: GetName_def getStructField_def)
  qed
  then show ?thesis
    by (simp add: GetName_def getName_def getStructField_def)
qed

theorem GetName_succeeds_only_where_getName_fails_witness:
  "snd (getName (Some (NExpr (Ident ''x''))))
   \<and> GetName (Some (NExpr (Ident ''x''))) = Inr ([], False)"
proof -
  have s: "snd (getName (Some (NExpr (Ident ''x''))))"
    by (simp add: getName_def getStructField_def)
  show ?thesis
    using GetName_succeeds_only_where_getName_fails [of "Some (NExpr (Ident ''x''))"] s
    by simp
qed

text \<open>C9 as stated fails on an identifier node: the earlier extractor returns its name,
  the later one reports not-found.\<close>

theorem GetName_loses_name_of_Ident:
  "getName (Some (NExpr (Ident ''ServiceOne''))) = (''ServiceOne'', True)
   \<and> GetName (Some (NExpr (Ident ''ServiceOne''))) = Inr ([], False)"
  by (simp add: GetName_def getName_def getStructField_def)

subsection \<open>The method filter and the type resolver\<close>

lemma typeName_failure: "snd (typeName e) \<noteq> None \<Longrightarrow> fst (typeName e) = []"
  by (induction e rule: typeName.induct) simp_all

lemma typeName_success:
  "typeName e = (name, None) \<Longrightarrow> \<exists>n. e = (StarExpr ^^ n) (Ident name)"
proof (induction e rule: typeName.induct)
  case (1 x)
  then obtain n where "x = (StarExpr ^^ n) (Ident name)" by auto
  then have "StarExpr x = (StarExpr ^^ Suc n) (Ident name)" by simp
  then show ?case by blast
next
  case (2 a)
  then have "Ident a = (StarExpr ^^ 0) (Ident name)" by simp
  then show ?case by blast
qed simp_all

text \<open>What the method filter computes: the node is a function declaration with a receiver
  list of exactly one field, the string that \<^verbatim>\<open>typeName\<close> returns for the type of that
  field (the empty string when the resolution fails) equals \<^verbatim>\<open>ReceiverType\<close>, and the
  name is exported when \<^verbatim>\<open>ExportedOnly\<close> is set.\<close>

lemma MethodFilter_matches_iff:
  "(Filter (MethodFilter receiverType exportedOnly) node = Inr True) =
     (\<exists>recvField name ty body.
        node = Some (NDecl (FuncDecl (Some [recvField]) name ty body))
        \<and> fst (typeName (fieldType recvField)) = receiverType
        \<and> (exportedOnly \<longrightarrow> IsExported name))"
proof (cases node)
  case None
  then show ?thesis by simp
next
  case (Some m)
  show ?thesis
  proof (cases m)
    case (NDecl d)
    show ?thesis
    proof (cases d)
      case (GenDecl specs)
      with Some NDecl show ?thesis by simp
    next
      case (FuncDecl recv name ty body)
      show ?thesis
      proof (cases recv)
        case None
        with Some NDecl FuncDecl show ?thesis by simp
      next
        case recv: (Some l)
        have "(length l = 1) = (\<exists>x. l = [x])"
          by (cases l) auto
        with Some NDecl FuncDecl recv show ?thesis
          by (auto simp: split_beta)
      qed
    qed
  qed (simp_all add: Some)
qed

text \<open>The method filter never panics, so \<^verbatim>\<open>Find\<close> with it always returns.\<close>

lemma MethodFilter_never_panics: "\<exists>b. Filter (MethodFilter receiverType exportedOnly) node = Inr b"
  by (auto split: option.splits node.splits decl.splits prod.splits)

lemma findList_returns:
  assumes "\<And>c. c \<in> set cs \<Longrightarrow> \<exists>r. find_node c f = Inr r"
  shows "\<exists>rs. findList cs f = Inr rs"
  using assms
proof (induction cs)
  case Nil
  then show ?case by simp
next
  case (Cons c cs)
  then obtain r rs where "find_node c f = Inr r" "findList cs f = Inr rs"
    by (meson list.set_intros)
  then show ?case by (simp add: findList_Cons)
qed

lemma find_node_returns:
  assumes "\<And>x. \<exists>b. Filter f x = Inr b"
  shows "\<exists>r. find_node n f = Inr r"
proof (induction n rule: measure_induct_rule [of nsize])
  case (less n)
  obtain b where b: "Filter f (Some n) = Inr b" using assms by blast
  obtain z where z: "Filter f None = Inr z" using assms by blast
  show ?case
  proof (cases b)
    case True
    with b show ?thesis by (simp add: find_node_True)
  next
    case False
    have "\<exists>rs. findList (children n) f = Inr rs"
      by (rule findList_returns, rule less.IH, rule child_nsize)
    then obtain rs where "findList (children n) f = Inr rs" ..
    with b False z show ?thesis
      by (cases z) (simp_all add: find_node_False afterNil_def)
  qed
qed

lemma Find_MethodFilter_returns:
  "\<exists>found. Find roots (MethodFilter receiverType exportedOnly) = Inr found"
  unfolding Find_findList
  by (rule findList_returns, rule find_node_returns, rule MethodFilter_never_panics)

text \<open>C4 fails when \<^verbatim>\<open>ReceiverType\<close> is the empty string: the error of \<^verbatim>\<open>typeName\<close> is
  discarded, and the empty string it returns with the error equals \<^verbatim>\<open>ReceiverType\<close>.
  The receiver \<^verbatim>\<open>*List[T]\<close> does not resolve to a base name, and the method matches.\<close>

theorem MethodFilter_matches_unresolved_receiver:
  "typeName (StarExpr (IndexExpr (Ident ''List'') (Ident ''T''))) = ([], Some NotATypeExpression)
   \<and> Filter (MethodFilter [] False)
       (Some (NDecl (FuncDecl (Some [Field [''l''] (StarExpr (IndexExpr (Ident ''List'') (Ident ''T'')))])
          ''Len'' (FuncType [] None) None))) = Inr True"
  by simp

text \<open>C8 fails for the same reason: with an empty \<^verbatim>\<open>ReceiverType\<close>, \<^verbatim>\<open>Find\<close> returns the
  method whose receiver type \<^verbatim>\<open>pkg.T\<close> could not be resolved, and not the method on
  \<^verbatim>\<open>*ServiceOne\<close>.\<close>

theorem Find_returns_method_with_unresolved_receiver:
  "typeName (SelectorExpr (Ident ''pkg'') ''T'') = ([], Some NotATypeExpression)
   \<and> Find [NDecl (FuncDecl (Some [Field [''s''] (SelectorExpr (Ident ''pkg'') ''T'')])
              ''Get'' (FuncType [] None) None),
            NDecl (FuncDecl (Some [Field [''s''] (StarExpr (Ident ''ServiceOne''))])
              ''Put'' (FuncType [] None) None)]
       (MethodFilter [] True)
     = Inr [Some (NDecl (FuncDecl (Some [Field [''s''] (SelectorExpr (Ident ''pkg'') ''T'')])
              ''Get'' (FuncType [] None) None))]"
proof -
  let ?f = "MethodFilter [] True"
  let ?get = "NDecl (FuncDecl (Some [Field [''s''] (SelectorExpr (Ident ''pkg'') ''T'')])
              ''Get'' (FuncType [] None) None)"
  let ?put = "NDecl (FuncDecl (Some [Field [''s''] (StarExpr (Ident ''ServiceOne''))])
              ''Put'' (FuncType [] None) None)"
  have G: "Filter ?f (Some ?get) = Inr True" by simp
  have P: "Filter ?f (Some ?put) = Inr False" by simp
  have c: "\<And>x. Filter ?f (Some (NExpr x)) = Inr False"
    "\<And>x. Filter ?f (Some (NFieldList x)) = Inr False"
    "\<And>x. Filter ?f (Some (NField x)) = Inr False"
    "\<And>x. Filter ?f (Some (NFuncType x)) = Inr False"
    "Filter ?f None = Inr False"
    by simp_all
  have put: "find_node ?put ?f = Inr []"
    by (simp add: find_node_False [OF P] find_node_False c findList_Cons afterNil_False)
  show ?thesis
    by (simp add: Find_findList findList_Cons find_node_True [OF G] put)
qed

subsection \<open>Nested pointers\<close>

text \<open>C10: any number of pointer wrappers around a plain named type resolves to the
  name of that type, without an error.\<close>

theorem typeName_unwraps_every_depth:
  "typeName ((StarExpr ^^ n) (Ident T)) = (T, None)"
  by (induction n) simp_all

end
